theory Spec2Isabelle
  imports Main "HOL-Library.Word"
begin

unbundle bit_operations_syntax

section \<open>Machine types and Go slices\<close>

type_synonym u8 = "8 word"
type_synonym u32 = "32 word"
type_synonym bytes = "u8 list"

text \<open>
  Go functions returning \<open>(T, error)\<close> are modelled with result type \<open>error + T\<close>.
  Each \<open>fmt.Errorf\<close> site of the sources has its own constructor; \<open>RuntimePanic\<close>
  stands for a Go run-time panic (index out of range, division by zero, negative
  \<open>make\<close> length, \<open>rand.Int\<close> with a non-positive bound).
\<close>

datatype error =
    InvalidKeySize
  | InvalidBlockSize
  | InvalidIVLength
  | NotBlockMultiple
  | InvalidPaddedData
  | InvalidPaddingLength
  | InvalidPadding
  | PrivateKeyNotSet
  | RandomSourceError
  | RuntimePanic

text \<open>The subslice expression \<open>xs[lo:hi]\<close> for \<open>lo \<le> hi \<le> len(xs)\<close>.\<close>

definition subslice :: "'a list \<Rightarrow> nat \<Rightarrow> nat \<Rightarrow> 'a list" where
  "subslice xs lo hi = take (hi - lo) (drop lo xs)"

text \<open>
  Go's builtin \<open>copy(dst[i:], src)\<close>: overwrites \<open>min (len dst - i) (len src)\<close> elements of
  \<open>dst\<close> starting at index \<open>i\<close>; the length of \<open>dst\<close> is unchanged.
\<close>

definition copy_at :: "'a list \<Rightarrow> nat \<Rightarrow> 'a list \<Rightarrow> 'a list" where
  "copy_at dst i src = take i dst @ take (length dst - i) src @ drop (i + length src) dst"

section \<open>RC6 (package encryption)\<close>

definition RC6BlockSize :: nat where
  "RC6BlockSize = 16"

definition RC6KeySize :: nat where
  "RC6KeySize = 32"

record RC6 =
  rc6_s :: "u32 list"
  rc6_w :: nat
  rc6_r :: nat

text \<open>\<open>rotl32\<close> and \<open>rotr32\<close>: shifts of a \<open>uint32\<close> by a \<open>uint32\<close> count; a count of 32 or
  more shifts everything out, and \<open>32 - n\<close> is computed in \<open>uint32\<close>.\<close>

definition rotl32 :: "u32 \<Rightarrow> u32 \<Rightarrow> u32" where
  "rotl32 x n = push_bit (unat n) x OR drop_bit (unat (32 - n)) x"

definition rotr32 :: "u32 \<Rightarrow> u32 \<Rightarrow> u32" where
  "rotr32 x n = drop_bit (unat n) x OR push_bit (unat (32 - n)) x"

text \<open>\<open>binary.LittleEndian.Uint32\<close> and \<open>PutUint32\<close> on a 4-byte subslice.\<close>

definition Uint32 :: "bytes \<Rightarrow> u32" where
  "Uint32 b = ucast (b ! 0) OR push_bit 8 (ucast (b ! 1)) OR push_bit 16 (ucast (b ! 2))
                OR push_bit 24 (ucast (b ! 3))"

definition PutUint32 :: "u32 \<Rightarrow> bytes" where
  "PutUint32 v = [ucast v, ucast (drop_bit 8 v), ucast (drop_bit 16 v), ucast (drop_bit 24 v)]"

subsection \<open>Key schedule\<close>

text \<open>The first loop of \<open>expandKey\<close>: \<open>L[i/4] |= uint32(key[i]) << uint((i%4)*8)\<close>.\<close>

definition load_key :: "bytes \<Rightarrow> u32 list" where
  "load_key key =
     fold (\<lambda>i L. L[i div 4 := (L ! (i div 4)) OR push_bit ((i mod 4) * 8) (ucast (key ! i))])
          [0..<length key] (replicate ((length key + 3) div 4) 0)"

definition p32 :: u32 where
  "p32 = 0xB7E15163"

definition q32 :: u32 where
  "q32 = 0x9E3779B9"

text \<open>\<open>r.s[0] = p32; for i := 1; i < 44; i++ { r.s[i] = r.s[i-1] + q32 }\<close>\<close>

definition init_s :: "u32 list \<Rightarrow> u32 list" where
  "init_s S = fold (\<lambda>i S. S[i := S ! (i - 1) + q32]) [1..<44] (S[0 := p32])"

text \<open>One pass of the body of the key-dependent loop; the state is \<open>(r.s, L, a, b, i, j)\<close>
  and \<open>c\<close> is the number of key words.\<close>

fun mix_step :: "nat \<Rightarrow> u32 list \<times> u32 list \<times> u32 \<times> u32 \<times> nat \<times> nat
                  \<Rightarrow> u32 list \<times> u32 list \<times> u32 \<times> u32 \<times> nat \<times> nat" where
  "mix_step c (S, L, a, b, i, j) =
     (let S1 = S[i := rotl32 (S ! i + a + b) 3];
          a1 = S1 ! i;
          L1 = L[j := rotl32 (L ! j + a1 + b) ((a1 + b) mod 32)];
          b1 = L1 ! j
      in (S1, L1, a1, b1, (i + 1) mod 44, (j + 1) mod c))"

text \<open>
  \<open>expandKey\<close> writes the round keys into \<open>r.s\<close>. It indexes \<open>r.s[0..43]\<close> and \<open>L[0..c-1]\<close>,
  so it panics when \<open>r.s\<close> is shorter than 44 words or the key is empty (\<open>c = 0\<close>).
\<close>

definition expandKey :: "RC6 \<Rightarrow> bytes \<Rightarrow> error + RC6" where
  "expandKey ciph key =
     (let c = (length key + 3) div 4 in
      if length (rc6_s ciph) < 44 \<or> c = 0 then Inl RuntimePanic
      else
        (case fold (\<lambda>k st. mix_step c st) [0..<3 * 44]
                (init_s (rc6_s ciph), load_key key, 0, 0, 0, 0) of
           (S, L, a, b, i, j) \<Rightarrow> Inr (ciph\<lparr>rc6_s := S\<rparr>)))"

definition NewRC6 :: "bytes \<Rightarrow> error + RC6" where
  "NewRC6 key =
     (if length key < 16 \<or> length key > 32 then Inl InvalidKeySize
      else expandKey \<lparr>rc6_s = replicate 44 0, rc6_w = 32, rc6_r = 20\<rparr> key)"

subsection \<open>Block transform\<close>

type_synonym quad = "u32 \<times> u32 \<times> u32 \<times> u32"

text \<open>The body of the encryption loop for round \<open>i\<close>, including the rotation of the
  word roles \<open>a, b, c, d = b, c, d, a\<close>.\<close>

fun enc_round :: "u32 list \<Rightarrow> nat \<Rightarrow> quad \<Rightarrow> quad" where
  "enc_round S i (a, b, c, d) =
     (let t = rotl32 (b * (2 * b + 1)) 5;
          u = rotl32 (d * (2 * d + 1)) 5;
          a1 = rotl32 (a XOR t) (u mod 32) + S ! (2 * i);
          c1 = rotl32 (c XOR u) (t mod 32) + S ! (2 * i + 1)
      in (b, c1, d, a1))"

text \<open>\<open>for i := 1; i <= r.r; i++\<close>\<close>

function enc_rounds :: "u32 list \<Rightarrow> nat \<Rightarrow> nat \<Rightarrow> quad \<Rightarrow> quad" where
  "enc_rounds S rr i q = (if i \<le> rr then enc_rounds S rr (i + 1) (enc_round S i q) else q)"
  by pat_completeness auto
termination
  by (relation "measure (\<lambda>(S, rr, i, q). Suc rr - i)") auto

text \<open>The body of the decryption loop for round \<open>i\<close>, starting with
  \<open>a, b, c, d = d, a, b, c\<close>.\<close>

fun dec_round :: "u32 list \<Rightarrow> nat \<Rightarrow> quad \<Rightarrow> quad" where
  "dec_round S i (a0, b0, c0, d0) =
     (let a = d0; b = a0; c = b0; d = c0;
          u = rotl32 (d * (2 * d + 1)) 5;
          t = rotl32 (b * (2 * b + 1)) 5;
          c1 = rotr32 (c - S ! (2 * i + 1)) (t mod 32) XOR u;
          a1 = rotr32 (a - S ! (2 * i)) (u mod 32) XOR t
      in (a1, b, c1, d))"

text \<open>\<open>for i := r.r; i >= 1; i--\<close>\<close>

fun dec_rounds :: "u32 list \<Rightarrow> nat \<Rightarrow> quad \<Rightarrow> quad" where
  "dec_rounds S 0 q = q"
| "dec_rounds S (Suc n) q = dec_rounds S n (dec_round S (Suc n) q)"

text \<open>
  \<open>Encrypt\<close> and \<open>Decrypt\<close> take the key as first parameter and never read it. They read
  \<open>r.s\<close> at the indices \<open>0 .. 2*r.r+3\<close>, the last of them on every path, so they panic
  exactly when \<open>r.s\<close> has fewer than \<open>2*r.r+4\<close> words.
\<close>

definition RC6_Encrypt :: "RC6 \<Rightarrow> bytes \<Rightarrow> bytes \<Rightarrow> error + bytes" where
  "RC6_Encrypt ciph key plaintext =
     (if length plaintext \<noteq> RC6BlockSize then Inl InvalidBlockSize
      else if length (rc6_s ciph) < 2 * rc6_r ciph + 4 then Inl RuntimePanic
      else
        (let S = rc6_s ciph; rr = rc6_r ciph;
             a = Uint32 (subslice plaintext 0 4);
             b = Uint32 (subslice plaintext 4 8);
             c = Uint32 (subslice plaintext 8 12);
             d = Uint32 (subslice plaintext 12 16);
             b = b + S ! 0;
             d = d + S ! 1
         in case enc_rounds S rr 1 (a, b, c, d) of
              (a, b, c, d) \<Rightarrow>
                (let a = a + S ! (2 * rr + 2);
                     c = c + S ! (2 * rr + 3)
                 in Inr (PutUint32 a @ PutUint32 b @ PutUint32 c @ PutUint32 d))))"

definition RC6_Decrypt :: "RC6 \<Rightarrow> bytes \<Rightarrow> bytes \<Rightarrow> error + bytes" where
  "RC6_Decrypt ciph key ciphertext =
     (if length ciphertext \<noteq> RC6BlockSize then Inl InvalidBlockSize
      else if length (rc6_s ciph) < 2 * rc6_r ciph + 4 then Inl RuntimePanic
      else
        (let S = rc6_s ciph; rr = rc6_r ciph;
             a = Uint32 (subslice ciphertext 0 4);
             b = Uint32 (subslice ciphertext 4 8);
             c = Uint32 (subslice ciphertext 8 12);
             d = Uint32 (subslice ciphertext 12 16);
             c = c - S ! (2 * rr + 3);
             a = a - S ! (2 * rr + 2)
         in case dec_rounds S rr (a, b, c, d) of
              (a, b, c, d) \<Rightarrow>
                (let d = d - S ! 1;
                     b = b - S ! 0
                 in Inr (PutUint32 a @ PutUint32 b @ PutUint32 c @ PutUint32 d))))"

subsection \<open>The key schedule in the words of the specification\<close>

text \<open>
  A second definition of the schedule, written from the specification and used only for
  comparison with \<open>expandKey\<close>: the table \<open>S\<close> has \<open>2r+4\<close> words with
  \<open>S[0] = P32\<close> and \<open>S[i] = S[i-1] + Q32\<close>; the mixing step
  \<open>A = S[i] = rotl(S[i]+A+B, 3); B = L[j] = rotl(L[j]+A+B, (A+B) mod 32)\<close> advances
  \<open>i\<close> and \<open>j\<close> cyclically and is iterated \<open>3 * max(c, 2r+4)\<close> times.
\<close>

fun spec_S0 :: "nat \<Rightarrow> u32" where
  "spec_S0 0 = 0xB7E15163"
| "spec_S0 (Suc i) = spec_S0 i + 0x9E3779B9"

definition spec_init_table :: "nat \<Rightarrow> u32 list" where
  "spec_init_table rr = map spec_S0 [0..<2 * rr + 4]"

fun spec_mix :: "nat \<Rightarrow> nat \<Rightarrow> u32 list \<times> u32 list \<times> u32 \<times> u32 \<times> nat \<times> nat
                  \<Rightarrow> u32 list \<times> u32 list \<times> u32 \<times> u32 \<times> nat \<times> nat" where
  "spec_mix rr c (S, L, A, B, i, j) =
     (let A1 = rotl32 (S ! i + A + B) 3;
          B1 = rotl32 (L ! j + A1 + B) ((A1 + B) mod 32)
      in (S[i := A1], L[j := B1], A1, B1, (i + 1) mod (2 * rr + 4), (j + 1) mod c))"

definition spec_key_schedule :: "nat \<Rightarrow> bytes \<Rightarrow> u32 list" where
  "spec_key_schedule rr key =
     (let c = (length key + 3) div 4
      in fst ((spec_mix rr c ^^ (3 * max c (2 * rr + 4)))
               (spec_init_table rr, load_key key, 0, 0, 0, 0)))"

text \<open>The loop invariant of the key-dependent loop: all index reads are in range.\<close>

definition mix_inv :: "nat \<Rightarrow> u32 list \<times> u32 list \<times> u32 \<times> u32 \<times> nat \<times> nat \<Rightarrow> bool" where
  "mix_inv c st = (case st of (S, L, a, b, i, j) \<Rightarrow> length S = 44 \<and> length L = c \<and> i < 44 \<and> j < c)"


text \<open>Inputs of the test suite: \<open>testKey256\<close>, \<open>testIV16\<close> and the plaintext
  \<open>"Hello, World!!!!"\<close> of \<open>modes_test.go\<close>.\<close>

definition testKey256 :: bytes where
  "testKey256 = map of_char ''0123456789ABCDEF0123456789ABCDEF''"

definition testIV16 :: bytes where
  "testIV16 = map of_char ''0123456789ABCDEF''"

definition hello_block :: bytes where
  "hello_block = map of_char ''Hello, World!!!!''"

section \<open>Padding schemes (package padding)\<close>

datatype Padder = ZeroPadding | PKCS7Padding | ANSIX923Padding | ISO10126Padding

fun Padder_Name :: "Padder \<Rightarrow> string" where
  "Padder_Name ZeroPadding = ''ZEROS''"
| "Padder_Name PKCS7Padding = ''PKCS7''"
| "Padder_Name ANSIX923Padding = ''ANSI_X923''"
| "Padder_Name ISO10126Padding = ''ISO_10126''"

text \<open>
  All four \<open>Pad\<close> methods start with
  \<open>paddingLen := blockSize - (len(data) % blockSize); if paddingLen == 0 { paddingLen = blockSize }\<close>.
  It is used for \<open>blockSize > 0\<close> only, where Go's \<open>%\<close> and \<open>mod\<close> agree.
\<close>

definition paddingLen :: "bytes \<Rightarrow> int \<Rightarrow> int" where
  "paddingLen data blockSize =
     (let n = blockSize - (int (length data) mod blockSize)
      in if n = 0 then blockSize else n)"

text \<open>
  \<open>Pad\<close> returns a slice only; the sum type records the run-time panics. For
  \<open>blockSize = 0\<close> the remainder panics (integer divide by zero); for \<open>blockSize < 0\<close> the
  remainder is non-negative, \<open>paddingLen\<close> is negative and \<open>make\<close> panics. \<open>byte(paddingLen)\<close>
  truncates to 8 bits.
\<close>

definition ZeroPadding_Pad :: "bytes \<Rightarrow> int \<Rightarrow> error + bytes" where
  "ZeroPadding_Pad data blockSize =
     (if blockSize \<le> 0 then Inl RuntimePanic
      else Inr (data @ replicate (nat (paddingLen data blockSize)) 0))"

definition PKCS7Padding_Pad :: "bytes \<Rightarrow> int \<Rightarrow> error + bytes" where
  "PKCS7Padding_Pad data blockSize =
     (if blockSize \<le> 0 then Inl RuntimePanic
      else (let n = paddingLen data blockSize
            in Inr (data @ replicate (nat n) (word_of_int n))))"

definition ANSIX923Padding_Pad :: "bytes \<Rightarrow> int \<Rightarrow> error + bytes" where
  "ANSIX923Padding_Pad data blockSize =
     (if blockSize \<le> 0 then Inl RuntimePanic
      else (let n = paddingLen data blockSize
            in Inr (data @ (replicate (nat n) 0)[nat (n - 1) := word_of_int n])))"

text \<open>
  \<open>rand.Read(padding[:paddingLen-1])\<close> fills all but the last byte from the random source.
  The source is the parameter \<open>rnd\<close>: its value at \<open>k\<close> is the \<open>k\<close>-th byte drawn.
\<close>

definition ISO10126Padding_Pad :: "(nat \<Rightarrow> u8) \<Rightarrow> bytes \<Rightarrow> int \<Rightarrow> error + bytes" where
  "ISO10126Padding_Pad rnd data blockSize =
     (if blockSize \<le> 0 then Inl RuntimePanic
      else (let n = paddingLen data blockSize;
                padding = copy_at (replicate (nat n) 0) 0 (map rnd [0..<nat (n - 1)])
            in Inr (data @ padding[nat (n - 1) := word_of_int n])))"

text \<open>
  The loop \<open>i := len(data) - 1; for i >= 0 && data[i] == 0 { i-- }\<close> of
  \<open>ZeroPadding.Unpad\<close>, counted by \<open>k = i + 1\<close>, the number of bytes kept.
\<close>

fun strip_zeros :: "bytes \<Rightarrow> nat \<Rightarrow> nat" where
  "strip_zeros data 0 = 0"
| "strip_zeros data (Suc i) = (if data ! i = 0 then strip_zeros data i else Suc i)"

definition ZeroPadding_Unpad :: "bytes \<Rightarrow> error + bytes" where
  "ZeroPadding_Unpad data =
     (if length data = 0 then Inl InvalidPaddedData
      else Inr (take (strip_zeros data (length data)) data))"

definition PKCS7Padding_Unpad :: "bytes \<Rightarrow> error + bytes" where
  "PKCS7Padding_Unpad data =
     (if length data = 0 then Inl InvalidPaddedData
      else (let n = unat (data ! (length data - 1)) in
        if n > length data \<or> n = 0 then Inl InvalidPaddingLength
        else if list_ex (\<lambda>i. data ! i \<noteq> of_nat n) [length data - n..<length data]
          then Inl InvalidPadding
        else Inr (take (length data - n) data)))"

definition ANSIX923Padding_Unpad :: "bytes \<Rightarrow> error + bytes" where
  "ANSIX923Padding_Unpad data =
     (if length data = 0 then Inl InvalidPaddedData
      else (let n = unat (data ! (length data - 1)) in
        if n > length data \<or> n = 0 then Inl InvalidPaddingLength
        else if list_ex (\<lambda>i. data ! i \<noteq> 0) [length data - n..<length data - 1]
          then Inl InvalidPadding
        else Inr (take (length data - n) data)))"

definition ISO10126Padding_Unpad :: "bytes \<Rightarrow> error + bytes" where
  "ISO10126Padding_Unpad data =
     (if length data = 0 then Inl InvalidPaddedData
      else (let n = unat (data ! (length data - 1)) in
        if n > length data \<or> n = 0 then Inl InvalidPaddingLength
        else Inr (take (length data - n) data)))"

text \<open>Method dispatch through the \<open>Padder\<close> interface.\<close>

fun Pad :: "Padder \<Rightarrow> (nat \<Rightarrow> u8) \<Rightarrow> bytes \<Rightarrow> int \<Rightarrow> error + bytes" where
  "Pad ZeroPadding rnd data blockSize = ZeroPadding_Pad data blockSize"
| "Pad PKCS7Padding rnd data blockSize = PKCS7Padding_Pad data blockSize"
| "Pad ANSIX923Padding rnd data blockSize = ANSIX923Padding_Pad data blockSize"
| "Pad ISO10126Padding rnd data blockSize = ISO10126Padding_Pad rnd data blockSize"

fun Unpad :: "Padder \<Rightarrow> bytes \<Rightarrow> error + bytes" where
  "Unpad ZeroPadding data = ZeroPadding_Unpad data"
| "Unpad PKCS7Padding data = PKCS7Padding_Unpad data"
| "Unpad ANSIX923Padding data = ANSIX923Padding_Unpad data"
| "Unpad ISO10126Padding data = ISO10126Padding_Unpad data"

text \<open>\<open>GetPadder\<close> returns an interface value; \<open>None\<close> is Go's \<open>nil\<close>.\<close>

definition GetPadder :: "string \<Rightarrow> Padder option" where
  "GetPadder paddingName =
     (if paddingName = ''ZEROS'' then Some ZeroPadding
      else if paddingName = ''PKCS7'' then Some PKCS7Padding
      else if paddingName = ''ANSI_X923'' then Some ANSIX923Padding
      else if paddingName = ''ISO_10126'' then Some ISO10126Padding
      else None)"

text \<open>A random source that always yields zero, for concrete runs.\<close>

definition zero_rnd :: "nat \<Rightarrow> u8" where
  "zero_rnd k = 0"

section \<open>Modes of operation (package modes): the registry\<close>

datatype Mode = ECBMode | CBCMode | PCBCMode | CFBMode | OFBMode | CTRMode | RandomDeltaMode

fun Mode_Name :: "Mode \<Rightarrow> string" where
  "Mode_Name ECBMode = ''ECB''"
| "Mode_Name CBCMode = ''CBC''"
| "Mode_Name PCBCMode = ''PCBC''"
| "Mode_Name CFBMode = ''CFB''"
| "Mode_Name OFBMode = ''OFB''"
| "Mode_Name CTRMode = ''CTR''"
| "Mode_Name RandomDeltaMode = ''RANDOM_DELTA''"

fun RequiresIV :: "Mode \<Rightarrow> bool" where
  "RequiresIV ECBMode = False"
| "RequiresIV m = True"

text \<open>\<open>GetMode\<close> has the single result type \<open>Mode\<close>, an interface; its \<open>default\<close> branch
  returns \<open>nil\<close>, which is \<open>None\<close> here. String comparison in the \<open>switch\<close> is exact.\<close>

definition GetMode :: "string \<Rightarrow> Mode option" where
  "GetMode modeName =
     (if modeName = ''ECB'' then Some ECBMode
      else if modeName = ''CBC'' then Some CBCMode
      else if modeName = ''PCBC'' then Some PCBCMode
      else if modeName = ''CFB'' then Some CFBMode
      else if modeName = ''OFB'' then Some OFBMode
      else if modeName = ''CTR'' then Some CTRMode
      else if modeName = ''RANDOM_DELTA'' then Some RandomDeltaMode
      else None)"

section \<open>Diffie-Hellman (package crypto)\<close>

text \<open>
  \<open>*big.Int\<close> fields are natural numbers (the parameters are a prime modulus and a
  generator, and every value computed from them is non-negative); a \<open>nil\<close> pointer is
  \<open>None\<close>.
\<close>

record DiffieHellman =
  dh_p :: nat
  dh_g :: nat
  dh_a :: "nat option"
  dh_publicKey :: "nat option"

text \<open>\<open>big.Int.Bytes\<close>: the big-endian bytes of the absolute value, without leading
  zero bytes (zero is the empty slice). \<open>big.Int.SetBytes\<close> reads a big-endian slice.\<close>

fun big_Bytes :: "nat \<Rightarrow> bytes" where
  "big_Bytes n = (if n = 0 then [] else big_Bytes (n div 256) @ [of_nat (n mod 256)])"

declare big_Bytes.simps [simp del]

definition big_SetBytes :: "bytes \<Rightarrow> nat" where
  "big_SetBytes b = foldl (\<lambda>acc x. acc * 256 + unat x) 0 b"

text \<open>\<open>big.Int.Exp(x, y, m)\<close> for non-negative arguments: \<open>x**y mod m\<close>, and \<open>x**y\<close> when
  \<open>m\<close> is zero.\<close>

definition big_Exp :: "nat \<Rightarrow> nat \<Rightarrow> nat \<Rightarrow> nat" where
  "big_Exp x y m = (if m = 0 then x ^ y else x ^ y mod m)"

text \<open>
  \<open>rand.Int(rand.Reader, max)\<close> returns a uniform value in \<open>[0, max)\<close>, panics for
  \<open>max \<le> 0\<close> and fails when the reader fails. The outcome of the draw is the parameter
  \<open>entropy\<close>: \<open>None\<close> is a failing reader, and \<open>Some r\<close> selects the value \<open>r mod max\<close>, so
  that every value of \<open>[0, max)\<close> is the result for some \<open>r\<close>.
\<close>

definition rand_Int :: "nat option \<Rightarrow> int \<Rightarrow> error + nat" where
  "rand_Int entropy mx =
     (if mx \<le> 0 then Inl RuntimePanic
      else (case entropy of None \<Rightarrow> Inl RandomSourceError
                          | Some r \<Rightarrow> Inr (r mod nat mx)))"

text \<open>\<open>computePublicKey\<close> dereferences \<open>dh.a\<close>; with a \<open>nil\<close> exponent \<open>Exp\<close> panics.\<close>

definition computePublicKey :: "DiffieHellman \<Rightarrow> error + DiffieHellman" where
  "computePublicKey dh =
     (case dh_a dh of None \<Rightarrow> Inl RuntimePanic
                    | Some a \<Rightarrow> Inr (dh\<lparr>dh_publicKey := Some (big_Exp (dh_g dh) a (dh_p dh))\<rparr>))"

definition GeneratePrivateKey :: "DiffieHellman \<Rightarrow> nat option \<Rightarrow> error + DiffieHellman" where
  "GeneratePrivateKey dh entropy =
     (let maxPrivateKey = int (dh_p dh) - 2 in
      case rand_Int entropy maxPrivateKey of
        Inl e \<Rightarrow> Inl e
      | Inr a \<Rightarrow> computePublicKey (dh\<lparr>dh_a := Some (a + 2)\<rparr>))"

definition GetPublicKey :: "DiffieHellman \<Rightarrow> bytes" where
  "GetPublicKey dh = (case dh_publicKey dh of None \<Rightarrow> [] | Some k \<Rightarrow> big_Bytes k)"

definition GetPrime :: "DiffieHellman \<Rightarrow> bytes" where
  "GetPrime dh = big_Bytes (dh_p dh)"

definition GetGenerator :: "DiffieHellman \<Rightarrow> bytes" where
  "GetGenerator dh = big_Bytes (dh_g dh)"

definition ComputeSharedSecret :: "DiffieHellman \<Rightarrow> bytes \<Rightarrow> error + bytes" where
  "ComputeSharedSecret dh otherPublicKeyBytes =
     (case dh_a dh of
        None \<Rightarrow> Inl PrivateKeyNotSet
      | Some a \<Rightarrow> Inr (big_Bytes (big_Exp (big_SetBytes otherPublicKeyBytes) a (dh_p dh))))"

definition SetParameters :: "DiffieHellman \<Rightarrow> nat \<Rightarrow> nat \<Rightarrow> DiffieHellman" where
  "SetParameters dh p g = dh\<lparr>dh_p := p, dh_g := g\<rparr>"

record KeyAgreement =
  PartyA :: DiffieHellman
  PartyB :: DiffieHellman

text \<open>\<open>PerformKeyExchange\<close> with the outcomes of the two draws; it returns both secrets.\<close>

definition PerformKeyExchange :: "KeyAgreement \<Rightarrow> nat option \<Rightarrow> nat option \<Rightarrow> error + bytes \<times> bytes" where
  "PerformKeyExchange ka entropyA entropyB =
     (case GeneratePrivateKey (PartyA ka) entropyA of
        Inl e \<Rightarrow> Inl e
      | Inr a \<Rightarrow>
         (case GeneratePrivateKey (PartyB ka) entropyB of
            Inl e \<Rightarrow> Inl e
          | Inr b \<Rightarrow>
             (case ComputeSharedSecret a (GetPublicKey b) of
                Inl e \<Rightarrow> Inl e
              | Inr secretA \<Rightarrow>
                 (case ComputeSharedSecret b (GetPublicKey a) of
                    Inl e \<Rightarrow> Inl e
                  | Inr secretB \<Rightarrow> Inr (secretA, secretB)))))"

text \<open>The value of \<open>StandardPrimes["2048"]\<close>, and the instance \<open>NewDiffieHellman(2048)\<close>
  returns: that modulus with the generator 2 and no keys yet.\<close>

definition StandardPrime2048 :: nat where
  "StandardPrime2048 = 32317006071311007300714876688669951960444102669715484032476718642208077927270919675726183480381655661245343293396374297865145287051385931674764604283831268402492847430639474124377767893424865485276302219601246094119453082952085005768838150682342462881473913110540827237163350510684586298239947671312301751751"

definition NewDiffieHellman2048 :: DiffieHellman where
  "NewDiffieHellman2048 = \<lparr>dh_p = StandardPrime2048, dh_g = 2, dh_a = None, dh_publicKey = None\<rparr>"

section \<open>Properties\<close>

subsection \<open>Rotations and byte order\<close>

lemma bit_u32_lt: "bit (x::u32) m \<Longrightarrow> m < 32"
  using bit_imp_le_length[of x m] by simp

lemma rotl32_rotl:
  assumes "n < 32"
  shows "rotl32 x n = word_rotl (unat n) x"
proof (rule bit_word_eqI)
  fix k assume k: "k < LENGTH(32)"
  have n: "unat n < 32" using assms by (simp add: word_less_nat_alt)
  have sub: "unat (32 - n) = 32 - unat n"
    using assms by (simp add: unat_sub word_le_nat_alt word_less_nat_alt)
  have L: "bit (rotl32 x n) k = ((unat n \<le> k \<and> bit x (k - unat n)) \<or> bit x (32 - unat n + k))"
    using k by (simp add: rotl32_def bit_simps sub)
  have R: "bit (word_rotl (unat n) x) k = bit x ((k + (32 - unat n)) mod 32)"
    using k n by (simp add: bit_simps)
  show "bit (rotl32 x n) k = bit (word_rotl (unat n) x) k"
  proof (cases "unat n \<le> k")
    case True
    then have e: "(k + (32 - unat n)) mod 32 = k - unat n" using k n
      by (simp add: mod_if)
    have "\<not> bit x (32 - unat n + k)"
      using True n bit_u32_lt[of x "32 - unat n + k"] by auto
    then show ?thesis using True unfolding L R e by simp
  next
    case False
    then have e: "(k + (32 - unat n)) mod 32 = 32 - unat n + k" using k n by simp
    show ?thesis using False unfolding L R e by simp
  qed
qed

lemma rotr32_rotr:
  assumes "n < 32"
  shows "rotr32 x n = word_rotr (unat n) x"
proof (rule bit_word_eqI)
  fix k assume k: "k < LENGTH(32)"
  have n: "unat n < 32" using assms by (simp add: word_less_nat_alt)
  have sub: "unat (32 - n) = 32 - unat n"
    using assms by (simp add: unat_sub word_le_nat_alt word_less_nat_alt)
  have L: "bit (rotr32 x n) k =
             (bit x (unat n + k) \<or> (32 - unat n \<le> k \<and> bit x (k - (32 - unat n))))"
    using k by (simp add: rotr32_def bit_simps sub)
  have R: "bit (word_rotr (unat n) x) k = bit x ((k + unat n) mod 32)"
    using k n by (simp add: bit_simps)
  show "bit (rotr32 x n) k = bit (word_rotr (unat n) x) k"
  proof (cases "k + unat n < 32")
    case True
    then have e: "(k + unat n) mod 32 = unat n + k" by simp
    have "\<not> 32 - unat n \<le> k" using True by arith
    then show ?thesis unfolding L R e by simp
  next
    case False
    then have e: "(k + unat n) mod 32 = k - (32 - unat n)" using k n
      by (simp add: mod_if)
    have "\<not> bit x (unat n + k)" using False bit_u32_lt[of x "unat n + k"] by auto
    moreover have "32 - unat n \<le> k" using False by arith
    ultimately show ?thesis unfolding L R e by simp
  qed
qed

lemma mod32_lt: "(x::u32) mod 32 < 32"
  by (simp add: word_less_nat_alt unat_mod)

lemma rotr32_rotl32: "n < 32 \<Longrightarrow> rotr32 (rotl32 x n) n = x"
  by (simp add: rotl32_rotl rotr32_rotr)

lemma rotl32_rotr32: "n < 32 \<Longrightarrow> rotl32 (rotr32 x n) n = x"
  by (simp add: rotl32_rotl rotr32_rotr)

lemma xor_cancel_right: "((a::u32) XOR t) XOR t = a"
  by (simp add: xor.assoc)

lemma Uint32_PutUint32: "Uint32 (PutUint32 v) = v"
proof (rule bit_word_eqI)
  fix n assume n: "n < LENGTH(32)"
  consider "n < 8" | "8 \<le> n" "n < 16" | "16 \<le> n" "n < 24" | "24 \<le> n" by linarith
  then show "bit (Uint32 (PutUint32 v)) n = bit v n"
  proof cases
    case 1 then show ?thesis using n by (simp add: Uint32_def PutUint32_def bit_simps)
  next
    case 2 then show ?thesis using n by (auto simp add: Uint32_def PutUint32_def bit_simps)
  next
    case 3 then show ?thesis using n by (auto simp add: Uint32_def PutUint32_def bit_simps)
  next
    case 4 then show ?thesis using n by (auto simp add: Uint32_def PutUint32_def bit_simps)
  qed
qed

lemma PutUint32_Uint32:
  assumes "length b = 4"
  shows "PutUint32 (Uint32 b) = b"
proof -
  obtain b0 b1 b2 b3 where b: "b = [b0, b1, b2, b3]"
    using assms by (auto simp: length_Suc_conv numeral_eq_Suc)
  have 0: "ucast (Uint32 b) = b0"
    by (rule bit_word_eqI) (auto simp add: Uint32_def b bit_simps dest: bit_imp_le_length)
  have 1: "ucast (drop_bit 8 (Uint32 b)) = b1"
    by (rule bit_word_eqI) (auto simp add: Uint32_def b bit_simps dest: bit_imp_le_length)
  have 2: "ucast (drop_bit 16 (Uint32 b)) = b2"
    by (rule bit_word_eqI) (auto simp add: Uint32_def b bit_simps dest: bit_imp_le_length)
  have 3: "ucast (drop_bit 24 (Uint32 b)) = b3"
    by (rule bit_word_eqI) (auto simp add: Uint32_def b bit_simps dest: bit_imp_le_length)
  show ?thesis unfolding PutUint32_def 0 1 2 3 by (simp add: b)
qed

lemma length_PutUint32: "length (PutUint32 v) = 4"
  by (simp add: PutUint32_def)

subsection \<open>RC6 rounds\<close>

lemma dec_enc_round: "dec_round S i (enc_round S i q) = q"
  by (cases q) (simp add: Let_def rotr32_rotl32 mod32_lt xor_cancel_right)

lemma enc_dec_round: "enc_round S i (dec_round S i q) = q"
  by (cases q) (simp add: Let_def rotl32_rotr32 mod32_lt xor_cancel_right)

declare enc_rounds.simps [simp del]

lemma dec_enc_rounds:
  "1 \<le> i \<Longrightarrow> i \<le> Suc rr \<Longrightarrow> dec_rounds S rr (enc_rounds S rr i q) = dec_rounds S (i - 1) q"
proof (induction S rr i q rule: enc_rounds.induct)
  case (1 S rr i q)
  show ?case
  proof (cases "i \<le> rr")
    case True
    obtain k where k: "i = Suc k" using "1.prems" by (cases i) auto
    have "dec_rounds S rr (enc_rounds S rr i q) = dec_rounds S rr (enc_rounds S rr (i + 1) (enc_round S i q))"
      using True by (subst enc_rounds.simps) simp
    also have "\<dots> = dec_rounds S i (enc_round S i q)"
      using "1.IH"[OF True] True by simp
    also have "\<dots> = dec_rounds S (i - 1) q"
      by (simp add: k dec_enc_round)
    finally show ?thesis .
  next
    case False
    then have "i = Suc rr" using "1.prems" by simp
    then show ?thesis by (subst enc_rounds.simps) simp
  qed
qed

lemma enc_dec_rounds:
  "k \<le> rr \<Longrightarrow> enc_rounds S rr 1 (dec_rounds S k q) = enc_rounds S rr (Suc k) q"
proof (induction k arbitrary: q)
  case 0
  then show ?case by simp
next
  case (Suc k)
  have "enc_rounds S rr 1 (dec_rounds S (Suc k) q) = enc_rounds S rr (Suc k) (dec_round S (Suc k) q)"
    using Suc by simp
  also have "\<dots> = enc_rounds S rr (Suc (Suc k)) q"
    using Suc.prems by (subst enc_rounds.simps) (simp add: enc_dec_round)
  finally show ?case .
qed

lemma enc_rounds_done: "enc_rounds S rr (Suc rr) q = q"
  by (subst enc_rounds.simps) simp

lemma block_subslices:
  assumes "length b = 16"
  shows "subslice b 0 4 @ subslice b 4 8 @ subslice b 8 12 @ subslice b 12 16 = b"
proof -
  have d: "take 4 (drop 12 b) = drop 12 b" using assms by simp
  have c: "take 4 (drop 8 b) @ drop 12 b = drop 8 b"
    using append_take_drop_id[of 4 "drop 8 b"] by simp
  have b': "take 4 (drop 4 b) @ drop 8 b = drop 4 b"
    using append_take_drop_id[of 4 "drop 4 b"] by simp
  have a: "take 4 b @ drop 4 b = b" by simp
  show ?thesis
    by (simp add: subslice_def d c b' a del: append_take_drop_id)
qed

lemma length_subslice: "hi \<le> length xs \<Longrightarrow> length (subslice xs lo hi) = hi - lo"
  by (simp add: subslice_def)

lemma slices_of_words:
  "length w0 = 4 \<Longrightarrow> length w1 = 4 \<Longrightarrow> length w2 = 4 \<Longrightarrow> length w3 = 4 \<Longrightarrow>
   subslice (w0 @ w1 @ w2 @ w3) 0 4 = w0 \<and> subslice (w0 @ w1 @ w2 @ w3) 4 8 = w1 \<and>
   subslice (w0 @ w1 @ w2 @ w3) 8 12 = w2 \<and> subslice (w0 @ w1 @ w2 @ w3) 12 16 = w3"
  by (simp add: subslice_def)

lemma rc6_encrypt_decrypt:
  assumes S: "2 * rc6_r ciph + 4 \<le> length (rc6_s ciph)" and b: "length blk = 16"
  shows "\<exists>ct. RC6_Encrypt ciph k1 blk = Inr ct \<and> length ct = 16 \<and> RC6_Decrypt ciph k2 ct = Inr blk"
proof -
  let ?S = "rc6_s ciph" and ?r = "rc6_r ciph"
  define q0 where "q0 = (Uint32 (subslice blk 0 4), Uint32 (subslice blk 4 8) + ?S ! 0,
                         Uint32 (subslice blk 8 12), Uint32 (subslice blk 12 16) + ?S ! 1)"
  obtain a b c d where q: "enc_rounds ?S ?r 1 q0 = (a, b, c, d)"
    by (cases "enc_rounds ?S ?r 1 q0") auto
  define ct where "ct = PutUint32 (a + ?S ! (2 * ?r + 2)) @ PutUint32 b @ PutUint32 (c + ?S ! (2 * ?r + 3)) @ PutUint32 d"
  have enc: "RC6_Encrypt ciph k1 blk = Inr ct"
    using S b q by (simp add: RC6_Encrypt_def RC6BlockSize_def Let_def q0_def ct_def)
  have len: "length ct = 16" by (simp add: ct_def length_PutUint32)
  have sl: "subslice ct 0 4 = PutUint32 (a + ?S ! (2 * ?r + 2))" "subslice ct 4 8 = PutUint32 b"
           "subslice ct 8 12 = PutUint32 (c + ?S ! (2 * ?r + 3))" "subslice ct 12 16 = PutUint32 d"
    unfolding ct_def using slices_of_words[OF length_PutUint32 length_PutUint32 length_PutUint32 length_PutUint32]
    by blast+
  have dr: "dec_rounds ?S ?r (a, b, c, d) = q0"
    using dec_enc_rounds[of 1 ?r ?S q0] q by simp
  have "RC6_Decrypt ciph k2 ct = Inr (PutUint32 (Uint32 (subslice blk 0 4)) @ PutUint32 (Uint32 (subslice blk 4 8)) @
          PutUint32 (Uint32 (subslice blk 8 12)) @ PutUint32 (Uint32 (subslice blk 12 16)))"
    using S len by (simp add: RC6_Decrypt_def RC6BlockSize_def Let_def sl Uint32_PutUint32 dr[unfolded q0_def])
  also have "\<dots> = Inr blk"
    using b by (simp add: PutUint32_Uint32 length_subslice block_subslices)
  finally show ?thesis using enc len by blast
qed


lemma rc6_decrypt_encrypt:
  assumes S: "2 * rc6_r ciph + 4 \<le> length (rc6_s ciph)" and b: "length blk = 16"
  shows "\<exists>pt. RC6_Decrypt ciph k1 blk = Inr pt \<and> length pt = 16 \<and> RC6_Encrypt ciph k2 pt = Inr blk"
proof -
  let ?S = "rc6_s ciph" and ?r = "rc6_r ciph"
  define q0 where "q0 = (Uint32 (subslice blk 0 4) - ?S ! (2 * ?r + 2), Uint32 (subslice blk 4 8),
                         Uint32 (subslice blk 8 12) - ?S ! (2 * ?r + 3), Uint32 (subslice blk 12 16))"
  obtain a b c d where q: "dec_rounds ?S ?r q0 = (a, b, c, d)"
    by (cases "dec_rounds ?S ?r q0") auto
  define pt where "pt = PutUint32 a @ PutUint32 (b - ?S ! 0) @ PutUint32 c @ PutUint32 (d - ?S ! 1)"
  have dec: "RC6_Decrypt ciph k1 blk = Inr pt"
    using S b q by (simp add: RC6_Decrypt_def RC6BlockSize_def Let_def q0_def pt_def)
  have len: "length pt = 16" by (simp add: pt_def length_PutUint32)
  have sl: "subslice pt 0 4 = PutUint32 a" "subslice pt 4 8 = PutUint32 (b - ?S ! 0)"
           "subslice pt 8 12 = PutUint32 c" "subslice pt 12 16 = PutUint32 (d - ?S ! 1)"
    unfolding pt_def using slices_of_words[OF length_PutUint32 length_PutUint32 length_PutUint32 length_PutUint32]
    by blast+
  have er: "enc_rounds ?S ?r (Suc 0) (a, b, c, d) = q0"
    using enc_dec_rounds[of ?r ?r ?S q0] q by (simp add: enc_rounds_done)
  have "RC6_Encrypt ciph k2 pt = Inr (PutUint32 (Uint32 (subslice blk 0 4)) @ PutUint32 (Uint32 (subslice blk 4 8)) @
          PutUint32 (Uint32 (subslice blk 8 12)) @ PutUint32 (Uint32 (subslice blk 12 16)))"
    using S len by (simp add: RC6_Encrypt_def RC6BlockSize_def Let_def sl Uint32_PutUint32 er[unfolded q0_def])
  also have "\<dots> = Inr blk"
    using b by (simp add: PutUint32_Uint32 length_subslice block_subslices)
  finally show ?thesis using dec len by blast
qed

subsection \<open>Key schedule: \<open>expandKey\<close> against the specification\<close>

lemma mix_step_inv: "0 < c \<Longrightarrow> mix_inv c st \<Longrightarrow> mix_inv c (mix_step c st)"
  by (cases st) (simp add: mix_inv_def Let_def)

lemma mix_step_spec: "mix_inv c st \<Longrightarrow> mix_step c st = spec_mix 20 c st"
  by (cases st) (simp add: mix_inv_def Let_def)

lemma fold_const_funpow: "fold (\<lambda>k. f) [0..<n] x = (f ^^ n) x"
  by (induction n) simp_all

lemma mix_funpow_inv: "0 < c \<Longrightarrow> mix_inv c st \<Longrightarrow> mix_inv c ((mix_step c ^^ n) st)"
  by (induction n) (simp_all add: mix_step_inv)

lemma mix_funpow_spec:
  "0 < c \<Longrightarrow> mix_inv c st \<Longrightarrow> (mix_step c ^^ n) st = (spec_mix 20 c ^^ n) st"
proof (induction n)
  case 0
  then show ?case by simp
next
  case (Suc n)
  then show ?case
    using mix_funpow_inv[of c st n] by (simp add: mix_step_spec)
qed

lemma length_load_key_fold:
  "length (fold (\<lambda>i L. L[g i := h i L]) xs L0) = length L0"
  by (induction xs arbitrary: L0) simp_all

lemma length_load_key: "length (load_key key) = (length key + 3) div 4"
  by (simp add: load_key_def length_load_key_fold)

lemma length_init_s: "length (init_s S) = length S"
  by (simp add: init_s_def length_load_key_fold)

lemma init_s_spec: "init_s (replicate 44 0) = spec_init_table 20"
  by code_simp

lemma NewRC6_schedule:
  assumes "16 \<le> length key" "length key \<le> 32"
  shows "NewRC6 key = Inr \<lparr>rc6_s = spec_key_schedule 20 key, rc6_w = 32, rc6_r = 20\<rparr>"
    and "length (spec_key_schedule 20 key) = 44"
proof -
  define c where "c = (length key + 3) div 4"
  have c: "0 < c" "c \<le> 8" using assms by (auto simp: c_def)
  have mx: "3 * max c (2 * 20 + 4) = 3 * 44" using c by simp
  define st0 :: "u32 list \<times> u32 list \<times> u32 \<times> u32 \<times> nat \<times> nat"
    where "st0 = (init_s (replicate 44 0), load_key key, 0, 0, 0, 0)"
  have inv0: "mix_inv c st0"
    using c by (simp add: st0_def mix_inv_def length_init_s length_load_key c_def)
  have eq: "fold (\<lambda>k st. mix_step c st) [0..<3 * 44] st0 = (spec_mix 20 c ^^ (3 * 44)) st0"
    using mix_funpow_spec[OF c(1) inv0] by (simp add: fold_const_funpow)
  have sk: "spec_key_schedule 20 key = fst ((spec_mix 20 c ^^ (3 * 44)) st0)"
    unfolding spec_key_schedule_def Let_def c_def[symmetric] mx st0_def init_s_spec ..
  obtain S L a b i j where r: "(spec_mix 20 c ^^ (3 * 44)) st0 = (S, L, a, b, i, j)"
    by (metis prod_cases6)
  have "mix_inv c ((mix_step c ^^ (3 * 44)) st0)" by (rule mix_funpow_inv[OF c(1) inv0])
  then have lenS: "length S = 44"
    using mix_funpow_spec[OF c(1) inv0, of "3 * 44"] r by (simp add: mix_inv_def)
  show "NewRC6 key = Inr \<lparr>rc6_s = spec_key_schedule 20 key, rc6_w = 32, rc6_r = 20\<rparr>"
    using assms c(1) eq r
    by (simp add: NewRC6_def expandKey_def Let_def c_def[symmetric] st0_def[symmetric] sk)
  show "length (spec_key_schedule 20 key) = 44"
    using lenS r by (simp add: sk)
qed

text \<open>The model reproduces the published RC6-32/20/16 test vector (all-zero key and
  block).\<close>

lemma rc6_test_vector:
  "(case NewRC6 (replicate 16 0) of Inl e \<Rightarrow> Inl e | Inr c \<Rightarrow> RC6_Encrypt c [] (replicate 16 0))
     = Inr [0x8f, 0xc3, 0xa5, 0x36, 0x56, 0xb1, 0xf7, 0x78,
            0xc1, 0x29, 0xdf, 0x4e, 0x98, 0x48, 0xa4, 0x1e]"
  by code_simp

subsection \<open>Claims about RC6\<close>

text \<open>
  Claim C7. Constructing RC6 with a key of 15 or of 33 bytes fails with the key-size
  error, and constructing it with any key of 16 to 32 bytes succeeds.
\<close>

theorem NewRC6_key_size:
  "(length key = 15 \<or> length key = 33 \<longrightarrow> NewRC6 key = Inl InvalidKeySize) \<and>
   (16 \<le> length key \<and> length key \<le> 32 \<longrightarrow> (\<exists>ciph. NewRC6 key = Inr ciph))"
proof (intro conjI impI)
  assume "length key = 15 \<or> length key = 33"
  then show "NewRC6 key = Inl InvalidKeySize" by (auto simp: NewRC6_def)
next
  assume "16 \<le> length key \<and> length key \<le> 32"
  then show "\<exists>ciph. NewRC6 key = Inr ciph" using NewRC6_schedule(1)[of key] by blast
qed

theorem NewRC6_key_size_witness:
  "NewRC6 (replicate 15 0) = Inl InvalidKeySize \<and>
   NewRC6 (replicate 33 0) = Inl InvalidKeySize \<and>
   (\<exists>ciph. NewRC6 (replicate 16 0) = Inr ciph) \<and>
   (\<exists>ciph. NewRC6 testKey256 = Inr ciph)"
  using NewRC6_key_size[of "replicate 15 0"] NewRC6_key_size[of "replicate 33 0"]
    NewRC6_key_size[of "replicate 16 0"] NewRC6_key_size[of testKey256]
  by (simp add: testKey256_def)

text \<open>
  Claim C5. For every RC6 instance constructed from a valid key (16 to 32 bytes) and every
  16-byte block, \<open>Decrypt\<close> applied to the result of \<open>Encrypt\<close> returns the block, and
  \<open>Encrypt\<close> applied to the result of \<open>Decrypt\<close> returns the block. Both calls succeed,
  whatever is passed as their key parameter.
\<close>

theorem RC6_Encrypt_Decrypt_inverse:
  assumes "16 \<le> length key" and "length key \<le> 32" and "length blk = 16"
  shows "\<exists>ciph. NewRC6 key = Inr ciph \<and>
           (\<exists>ct. RC6_Encrypt ciph k1 blk = Inr ct \<and> RC6_Decrypt ciph k2 ct = Inr blk) \<and>
           (\<exists>pt. RC6_Decrypt ciph k1 blk = Inr pt \<and> RC6_Encrypt ciph k2 pt = Inr blk)"
proof -
  let ?c = "\<lparr>rc6_s = spec_key_schedule 20 key, rc6_w = 32, rc6_r = 20\<rparr>"
  have new: "NewRC6 key = Inr ?c" using assms(1,2) by (rule NewRC6_schedule(1))
  have len: "2 * rc6_r ?c + 4 \<le> length (rc6_s ?c)"
    using NewRC6_schedule(2)[OF assms(1,2)] by simp
  show ?thesis
    using new rc6_encrypt_decrypt[OF len assms(3), of k1 k2]
      rc6_decrypt_encrypt[OF len assms(3), of k1 k2]
    by blast
qed

theorem RC6_Encrypt_Decrypt_inverse_witness:
  "\<exists>ciph. NewRC6 testKey256 = Inr ciph \<and>
     (\<exists>ct. RC6_Encrypt ciph testKey256 hello_block = Inr ct \<and>
           RC6_Decrypt ciph testKey256 ct = Inr hello_block) \<and>
     (\<exists>pt. RC6_Decrypt ciph testKey256 hello_block = Inr pt \<and>
           RC6_Encrypt ciph testKey256 pt = Inr hello_block)"
  using RC6_Encrypt_Decrypt_inverse[of testKey256 hello_block testKey256 testKey256]
  by (simp add: testKey256_def hello_block_def)

text \<open>
  Claim C6. For every key of 16 to 32 bytes the schedule built by \<open>NewRC6\<close> is the one the
  specification describes for \<open>r = 20\<close>: a table of \<open>2r+4 = 44\<close> words initialised with
  \<open>S[0] = 0xB7E15163\<close>, \<open>S[i] = S[i-1] + 0x9E3779B9\<close>, followed by exactly
  \<open>3 * max(c, 2r+4)\<close> iterations of the mixing step, \<open>c\<close> being the number of key words.
\<close>

theorem expandKey_refines_spec:
  assumes "16 \<le> length key" and "length key \<le> 32"
  shows "\<exists>ciph. NewRC6 key = Inr ciph \<and> rc6_r ciph = 20 \<and>
           length (rc6_s ciph) = 2 * rc6_r ciph + 4 \<and>
           rc6_s ciph = spec_key_schedule (rc6_r ciph) key"
  using NewRC6_schedule[OF assms] by simp

theorem expandKey_refines_spec_witness:
  "\<exists>ciph. NewRC6 testKey256 = Inr ciph \<and> rc6_r ciph = 20 \<and>
     length (rc6_s ciph) = 2 * rc6_r ciph + 4 \<and>
     rc6_s ciph = spec_key_schedule (rc6_r ciph) testKey256"
  using expandKey_refines_spec[of testKey256] by (simp add: testKey256_def)

text \<open>
  Claim C10. The key parameter of \<open>Encrypt\<close> and \<open>Decrypt\<close> has no effect on the result:
  for every instance, every block and any two byte slices passed as the key, the two
  calls return the same value, which therefore depends only on the schedule stored in the
  instance.
\<close>

theorem RC6_key_parameter_ignored:
  "RC6_Encrypt ciph k1 blk = RC6_Encrypt ciph k2 blk \<and>
   RC6_Decrypt ciph k1 blk = RC6_Decrypt ciph k2 blk"
  by (simp add: RC6_Encrypt_def RC6_Decrypt_def)

theorem RC6_key_parameter_ignored_witness:
  "RC6_Encrypt \<lparr>rc6_s = spec_key_schedule 20 testKey256, rc6_w = 32, rc6_r = 20\<rparr> [] hello_block
     = RC6_Encrypt \<lparr>rc6_s = spec_key_schedule 20 testKey256, rc6_w = 32, rc6_r = 20\<rparr>
         testKey256 hello_block \<and>
   RC6_Decrypt \<lparr>rc6_s = spec_key_schedule 20 testKey256, rc6_w = 32, rc6_r = 20\<rparr> [] hello_block
     = RC6_Decrypt \<lparr>rc6_s = spec_key_schedule 20 testKey256, rc6_w = 32, rc6_r = 20\<rparr>
         testKey256 hello_block"
  using RC6_key_parameter_ignored[of
      "\<lparr>rc6_s = spec_key_schedule 20 testKey256, rc6_w = 32, rc6_r = 20\<rparr>" "[]" hello_block testKey256]
  by simp

subsection \<open>Padding\<close>

lemma paddingLen_range:
  assumes "0 < bs"
  shows "0 < paddingLen data bs" "paddingLen data bs \<le> bs"
    "(int (length data) + paddingLen data bs) mod bs = 0"
proof -
  let ?m = "int (length data) mod bs"
  have m: "0 \<le> ?m" "?m < bs" using assms by simp_all
  show "0 < paddingLen data bs" using m assms by (simp add: paddingLen_def Let_def)
  show "paddingLen data bs \<le> bs" using m assms by (simp add: paddingLen_def Let_def)
  have "(int (length data) + (bs - ?m)) mod bs = ((int (length data) - ?m) + bs) mod bs"
    by (simp add: algebra_simps)
  also have "\<dots> = (int (length data) - ?m) mod bs" by simp
  also have "\<dots> = 0" by (simp add: minus_mod_eq_mult_div)
  finally have "(int (length data) + (bs - ?m)) mod bs = 0" .
  then show "(int (length data) + paddingLen data bs) mod bs = 0"
    using m by (simp add: paddingLen_def Let_def)
qed

lemma Pad_result:
  assumes "0 < bs"
  shows "\<exists>out. Pad p rnd data bs = Inr out \<and> length out = length data + nat (paddingLen data bs)
            \<and> take (length data) out = data"
  using assms
  by (cases p) (simp_all add: ZeroPadding_Pad_def PKCS7Padding_Pad_def ANSIX923Padding_Pad_def
      ISO10126Padding_Pad_def Let_def copy_at_def)

lemma Unpad_empty: "Unpad p [] = Inl InvalidPaddedData"
  by (cases p) (simp_all add: ZeroPadding_Unpad_def PKCS7Padding_Unpad_def ANSIX923Padding_Unpad_def
      ISO10126Padding_Unpad_def)

lemma Unpad_bad_length:
  assumes "p \<noteq> ZeroPadding" "data \<noteq> []" "unat (last data) = 0 \<or> length data < unat (last data)"
  shows "Unpad p data = Inl InvalidPaddingLength"
  using assms
  by (cases p) (auto simp add: PKCS7Padding_Unpad_def ANSIX923Padding_Unpad_def
      ISO10126Padding_Unpad_def Let_def last_conv_nth)

lemma Unpad_zero_accepts:
  "data \<noteq> [] \<Longrightarrow> Unpad ZeroPadding data = Inr (take (strip_zeros data (length data)) data)"
  by (simp add: ZeroPadding_Unpad_def)

text \<open>
  Claim C8, as amended. For every padding scheme, every input and every positive block
  size, \<open>Pad\<close> returns a buffer whose length is a positive multiple of the block size and
  is at most \<open>len(data) + blockSize\<close>. Every scheme's \<open>Unpad\<close> rejects the empty input. The
  \<open>Unpad\<close> of PKCS7, ANSI_X923 and ISO_10126 rejects every input whose last byte, read as
  a padding length, is zero or exceeds the buffer length. ZEROS has no length byte: its
  \<open>Unpad\<close> accepts every non-empty input and returns it without its trailing zero bytes.
\<close>

theorem Pad_length_and_Unpad_rejection:
  "(0 < bs \<longrightarrow>
      (\<exists>out. Pad p rnd data bs = Inr out \<and> 0 < length out \<and> int (length out) mod bs = 0 \<and>
             int (length out) \<le> int (length data) + bs)) \<and>
   Unpad p [] = Inl InvalidPaddedData \<and>
   (p \<noteq> ZeroPadding \<and> data \<noteq> [] \<and> (unat (last data) = 0 \<or> length data < unat (last data))
      \<longrightarrow> Unpad p data = Inl InvalidPaddingLength) \<and>
   (data \<noteq> [] \<longrightarrow> Unpad ZeroPadding data = Inr (take (strip_zeros data (length data)) data))"
proof (intro conjI impI)
  assume bs: "0 < bs"
  obtain out where out: "Pad p rnd data bs = Inr out"
      "length out = length data + nat (paddingLen data bs)"
    using Pad_result[OF bs, of p rnd data] by blast
  have len: "int (length out) = int (length data) + paddingLen data bs"
    using out(2) paddingLen_range(1)[OF bs, of data] by simp
  have pos: "0 < length out" using out(2) paddingLen_range(1)[OF bs, of data] by simp
  have div: "int (length out) mod bs = 0"
    unfolding len by (rule paddingLen_range(3)[OF bs])
  have le: "int (length out) \<le> int (length data) + bs"
    unfolding len using paddingLen_range(2)[OF bs, of data] by simp
  show "\<exists>out. Pad p rnd data bs = Inr out \<and> 0 < length out \<and>
      int (length out) mod bs = 0 \<and> int (length out) \<le> int (length data) + bs"
    by (rule exI[of _ out]) (simp only: out(1) pos div le simp_thms)
next
  show "Unpad p [] = Inl InvalidPaddedData" by (rule Unpad_empty)
next
  assume "p \<noteq> ZeroPadding \<and> data \<noteq> [] \<and> (unat (last data) = 0 \<or> length data < unat (last data))"
  then show "Unpad p data = Inl InvalidPaddingLength" using Unpad_bad_length by blast
next
  assume "data \<noteq> []"
  then show "Unpad ZeroPadding data = Inr (take (strip_zeros data (length data)) data)"
    by (rule Unpad_zero_accepts)
qed

theorem Pad_length_and_Unpad_rejection_witness:
  "(\<exists>out. Pad ISO10126Padding zero_rnd [1, 2, 3] 8 = Inr out \<and> 0 < length out \<and>
          int (length out) mod 8 = 0 \<and> int (length out) \<le> int (length [1, 2, 3 :: u8]) + 8) \<and>
   Unpad PKCS7Padding [] = Inl InvalidPaddedData \<and>
   Unpad PKCS7Padding [1, 2, 3, 0] = Inl InvalidPaddingLength \<and>
   Unpad ANSIX923Padding [0, 0, 9] = Inl InvalidPaddingLength \<and>
   Unpad ZeroPadding [1, 0] = Inr [1]"
  using Pad_length_and_Unpad_rejection[of 8 ISO10126Padding zero_rnd "[1, 2, 3]"]
    Pad_length_and_Unpad_rejection[of 8 PKCS7Padding zero_rnd "[1, 2, 3, 0]"]
    Pad_length_and_Unpad_rejection[of 8 ANSIX923Padding zero_rnd "[0, 0, 9]"]
    Pad_length_and_Unpad_rejection[of 8 ZeroPadding zero_rnd "[1, 0]"]
  by simp

text \<open>
  Claim C8 as stated fails for ZEROS: \<open>ZeroPadding.Unpad\<close> accepts the one-byte input
  \<open>[0]\<close>, whose last byte is zero, and the one-byte input \<open>[5]\<close>, whose last byte exceeds
  the buffer length.
\<close>

theorem ZeroPadding_Unpad_accepts_bad_length:
  "unat (last [0 :: u8]) = 0 \<and> Unpad ZeroPadding [0] = Inr [] \<and>
   length [5 :: u8] < unat (last [5 :: u8]) \<and> Unpad ZeroPadding [5] = Inr [5]"
  by (simp add: ZeroPadding_Unpad_def)

subsection \<open>Registry\<close>

lemma GetMode_Name: "GetMode (Mode_Name m) = Some m"
  by (cases m) (simp_all add: GetMode_def)

lemma GetPadder_Name: "GetPadder (Padder_Name p) = Some p"
  by (cases p) (simp_all add: GetPadder_def)

text \<open>
  Claim C9, as amended. Every name of \<open>{ECB, CBC, PCBC, CFB, OFB, CTR, RANDOM_DELTA}\<close> and
  of \<open>{ZEROS, PKCS7, ANSI_X923, ISO_10126}\<close> returns the implementation of that name. For
  every other name, lowercase variants included, \<open>GetMode\<close> and \<open>GetPadder\<close> return \<open>nil\<close>:
  no implementation is substituted, and no error value or message is produced, since the
  functions have no error result.
\<close>

theorem GetMode_GetPadder_closed_sets:
  "GetMode (Mode_Name m) = Some m \<and> GetPadder (Padder_Name p) = Some p \<and>
   (name \<notin> set [''ECB'', ''CBC'', ''PCBC'', ''CFB'', ''OFB'', ''CTR'', ''RANDOM_DELTA'']
      \<longrightarrow> GetMode name = None) \<and>
   (name \<notin> set [''ZEROS'', ''PKCS7'', ''ANSI_X923'', ''ISO_10126''] \<longrightarrow> GetPadder name = None)"
proof (intro conjI impI)
  show "GetMode (Mode_Name m) = Some m" by (rule GetMode_Name)
  show "GetPadder (Padder_Name p) = Some p" by (rule GetPadder_Name)
next
  assume "name \<notin> set [''ECB'', ''CBC'', ''PCBC'', ''CFB'', ''OFB'', ''CTR'', ''RANDOM_DELTA'']"
  then show "GetMode name = None" by (simp add: GetMode_def)
next
  assume "name \<notin> set [''ZEROS'', ''PKCS7'', ''ANSI_X923'', ''ISO_10126'']"
  then show "GetPadder name = None" by (simp add: GetPadder_def)
qed

theorem GetMode_GetPadder_closed_sets_witness:
  "GetMode ''RANDOM_DELTA'' = Some RandomDeltaMode \<and> GetPadder ''ANSI_X923'' = Some ANSIX923Padding \<and>
   GetMode ''XTS'' = None \<and> GetPadder ''XTS'' = None"
  using GetMode_GetPadder_closed_sets[of RandomDeltaMode ANSIX923Padding "''XTS''"]
  by simp

text \<open>
  Claim C9 as stated asks for an "unsupported" error on an unknown name. At the lowercase
  names \<open>ecb\<close> and \<open>pkcs7\<close> the result is the \<open>nil\<close> interface value, not an error.
\<close>

theorem GetMode_GetPadder_unknown_is_nil:
  "GetMode ''ecb'' = None \<and> GetPadder ''pkcs7'' = None"
  by (simp add: GetMode_def GetPadder_def)

subsection \<open>Diffie-Hellman\<close>

lemma big_SetBytes_append: "big_SetBytes (xs @ [x]) = big_SetBytes xs * 256 + unat x"
  by (simp add: big_SetBytes_def)

lemma big_SetBytes_Bytes: "big_SetBytes (big_Bytes n) = n"
proof (induction n rule: big_Bytes.induct)
  case (1 n)
  show ?case
  proof (cases "n = 0")
    case True
    then show ?thesis by (simp add: big_SetBytes_def big_Bytes.simps)
  next
    case False
    have u: "unat (of_nat (n mod 256) :: u8) = n mod 256"
      by (simp add: unat_of_nat)
    have "big_SetBytes (big_Bytes n) = big_SetBytes (big_Bytes (n div 256)) * 256 + n mod 256"
      using False by (subst big_Bytes.simps) (simp add: big_SetBytes_append u)
    then show ?thesis using "1.IH"[OF False] by simp
  qed
qed

lemma big_Exp_commute: "big_Exp (big_Exp g b p) a p = big_Exp (big_Exp g a p) b p"
proof (cases "p = 0")
  case True
  then show ?thesis by (simp add: big_Exp_def power_mult[symmetric] mult.commute)
next
  case False
  then show ?thesis
    by (simp add: big_Exp_def power_mod power_mult[symmetric] mult.commute)
qed

lemma GeneratePrivateKey_Inr:
  assumes "GeneratePrivateKey dh e = Inr dh'"
  shows "\<exists>r. e = Some r \<and> 2 < dh_p dh \<and> dh_p dh' = dh_p dh \<and> dh_g dh' = dh_g dh \<and>
             dh_a dh' = Some (r mod (dh_p dh - 2) + 2) \<and>
             dh_publicKey dh' = Some (big_Exp (dh_g dh) (r mod (dh_p dh - 2) + 2) (dh_p dh))"
  using assms
  by (auto simp: GeneratePrivateKey_def rand_Int_def computePublicKey_def Let_def nat_diff_distrib
      split: if_splits option.splits sum.splits)

lemma DH_symmetry:
  assumes pg: "dh_p A = dh_p B" "dh_g A = dh_g B"
    and A: "GeneratePrivateKey A eA = Inr A'" and B: "GeneratePrivateKey B eB = Inr B'"
  shows "\<exists>s. ComputeSharedSecret A' (GetPublicKey B') = Inr s \<and>
             ComputeSharedSecret B' (GetPublicKey A') = Inr s"
proof -
  obtain ra where a: "dh_p A' = dh_p A" "dh_a A' = Some (ra mod (dh_p A - 2) + 2)"
      "dh_publicKey A' = Some (big_Exp (dh_g A) (ra mod (dh_p A - 2) + 2) (dh_p A))"
    using GeneratePrivateKey_Inr[OF A] by blast
  obtain rb where b: "dh_p B' = dh_p B" "dh_a B' = Some (rb mod (dh_p B - 2) + 2)"
      "dh_publicKey B' = Some (big_Exp (dh_g B) (rb mod (dh_p B - 2) + 2) (dh_p B))"
    using GeneratePrivateKey_Inr[OF B] by blast
  let ?a = "ra mod (dh_p B - 2) + 2" and ?b = "rb mod (dh_p B - 2) + 2"
  have sa: "ComputeSharedSecret A' (GetPublicKey B')
              = Inr (big_Bytes (big_Exp (big_Exp (dh_g B) ?b (dh_p B)) ?a (dh_p B)))"
    by (simp add: ComputeSharedSecret_def GetPublicKey_def a b pg big_SetBytes_Bytes)
  have sb: "ComputeSharedSecret B' (GetPublicKey A')
              = Inr (big_Bytes (big_Exp (big_Exp (dh_g B) ?a (dh_p B)) ?b (dh_p B)))"
    by (simp add: ComputeSharedSecret_def GetPublicKey_def a b pg big_SetBytes_Bytes)
  show ?thesis
    unfolding sa sb using big_Exp_commute[of "dh_g B" ?b "dh_p B" ?a] by simp
qed

lemma GeneratePrivateKey_Some:
  assumes "2 < dh_p dh"
  shows "GeneratePrivateKey dh (Some r)
           = Inr (dh\<lparr>dh_a := Some (r mod (dh_p dh - 2) + 2),
                     dh_publicKey := Some (big_Exp (dh_g dh) (r mod (dh_p dh - 2) + 2) (dh_p dh))\<rparr>)"
  using assms
  by (simp add: GeneratePrivateKey_def rand_Int_def computePublicKey_def Let_def nat_diff_distrib)

lemma StandardPrime2048_gt: "2 < StandardPrime2048"
  by (simp add: StandardPrime2048_def)

text \<open>The bound the code does guarantee: \<open>2 \<le> a \<le> p - 1\<close>.\<close>

lemma GeneratePrivateKey_bound:
  assumes "GeneratePrivateKey dh e = Inr dh'" and "dh_a dh' = Some a"
  shows "2 \<le> a \<and> a \<le> dh_p dh - 1"
proof -
  obtain r where r: "2 < dh_p dh" "dh_a dh' = Some (r mod (dh_p dh - 2) + 2)"
    using GeneratePrivateKey_Inr[OF assms(1)] by blast
  have "r mod (dh_p dh - 2) < dh_p dh - 2" using r(1) by simp
  then show ?thesis using r(2) assms(2) by simp
qed

text \<open>
  Claim C3. For any shared modulus and generator and any two parties whose private keys
  were generated independently, \<open>A.ComputeSharedSecret\<close> of B's public key bytes and
  \<open>B.ComputeSharedSecret\<close> of A's public key bytes succeed and return the same bytes; these
  are the two secrets \<open>PerformKeyExchange\<close> returns.
\<close>

theorem ComputeSharedSecret_symmetric:
  assumes "dh_p A = dh_p B" and "dh_g A = dh_g B"
    and "GeneratePrivateKey A eA = Inr A'" and "GeneratePrivateKey B eB = Inr B'"
  shows "\<exists>s. ComputeSharedSecret A' (GetPublicKey B') = Inr s \<and>
             ComputeSharedSecret B' (GetPublicKey A') = Inr s \<and>
             PerformKeyExchange \<lparr>PartyA = A, PartyB = B\<rparr> eA eB = Inr (s, s)"
proof -
  obtain s where s: "ComputeSharedSecret A' (GetPublicKey B') = Inr s"
      "ComputeSharedSecret B' (GetPublicKey A') = Inr s"
    using DH_symmetry[OF assms] by blast
  have "PerformKeyExchange \<lparr>PartyA = A, PartyB = B\<rparr> eA eB = Inr (s, s)"
    by (simp add: PerformKeyExchange_def assms(3,4) s)
  then show ?thesis using s by blast
qed

theorem ComputeSharedSecret_symmetric_witness:
  "\<exists>A' B' s. GeneratePrivateKey NewDiffieHellman2048 (Some 5) = Inr A' \<and>
      GeneratePrivateKey NewDiffieHellman2048 (Some 11) = Inr B' \<and>
      ComputeSharedSecret A' (GetPublicKey B') = Inr s \<and>
      ComputeSharedSecret B' (GetPublicKey A') = Inr s \<and>
      PerformKeyExchange \<lparr>PartyA = NewDiffieHellman2048, PartyB = NewDiffieHellman2048\<rparr>
        (Some 5) (Some 11) = Inr (s, s)"
proof -
  have p: "2 < dh_p NewDiffieHellman2048"
    using StandardPrime2048_gt by (simp add: NewDiffieHellman2048_def)
  obtain A' where A: "GeneratePrivateKey NewDiffieHellman2048 (Some 5) = Inr A'"
    using GeneratePrivateKey_Some[OF p] by blast
  obtain B' where B: "GeneratePrivateKey NewDiffieHellman2048 (Some 11) = Inr B'"
    using GeneratePrivateKey_Some[OF p] by blast
  show ?thesis
    using ComputeSharedSecret_symmetric[OF refl refl A B] A B by blast
qed

text \<open>
  Claim C2 at a failing input. On the instance of \<open>NewDiffieHellman(2048)\<close> the modulus
  serialises to 128 bytes. When the draw of \<open>GeneratePrivateKey\<close> yields 0 the private key
  is 2, the public key is 4 and \<open>GetPublicKey\<close> returns the single byte \<open>[4]\<close>; for a peer
  with the same key \<open>ComputeSharedSecret\<close> returns the single byte \<open>[16]\<close>. Neither is
  left-padded to the length of the modulus.
\<close>

theorem GetPublicKey_ComputeSharedSecret_not_padded:
  "\<exists>d. GeneratePrivateKey NewDiffieHellman2048 (Some 0) = Inr d \<and>
       length (GetPrime d) = 128 \<and>
       GetPublicKey d = [4] \<and>
       ComputeSharedSecret d (GetPublicKey d) = Inr [16]"
  by (simp add: GeneratePrivateKey_def NewDiffieHellman2048_def StandardPrime2048_def rand_Int_def
      computePublicKey_def GetPublicKey_def GetPrime_def ComputeSharedSecret_def big_Exp_def
      big_SetBytes_def big_Bytes.simps)

text \<open>
  Claim C4 at a failing input. \<open>rand.Int\<close> draws from \<open>[0, p-2)\<close> and the code adds 2, so
  the largest private key is \<open>p - 1\<close>, not \<open>p - 2\<close>. With \<open>p = 23\<close>, \<open>g = 5\<close> and the draw 20
  the key is 22 and the public key is 1; on the instance of \<open>NewDiffieHellman(2048)\<close> the
  draw \<open>p - 3\<close> gives the key \<open>p - 1\<close>.
\<close>

theorem GeneratePrivateKey_exceeds_bound:
  "(\<exists>d. GeneratePrivateKey \<lparr>dh_p = 23, dh_g = 5, dh_a = None, dh_publicKey = None\<rparr> (Some 20) = Inr d \<and>
        dh_a d = Some 22 \<and> dh_publicKey d = Some 1 \<and> (22 :: nat) > 23 - 2) \<and>
   (\<exists>d. GeneratePrivateKey NewDiffieHellman2048 (Some (StandardPrime2048 - 3)) = Inr d \<and>
        dh_a d = Some (StandardPrime2048 - 1) \<and> StandardPrime2048 - 1 > StandardPrime2048 - 2)"
proof
  show "\<exists>d. GeneratePrivateKey \<lparr>dh_p = 23, dh_g = 5, dh_a = None, dh_publicKey = None\<rparr> (Some 20) = Inr d \<and>
        dh_a d = Some 22 \<and> dh_publicKey d = Some 1 \<and> (22 :: nat) > 23 - 2"
    by (simp add: GeneratePrivateKey_Some big_Exp_def)
next
  have p: "2 < dh_p NewDiffieHellman2048"
    using StandardPrime2048_gt by (simp add: NewDiffieHellman2048_def)
  have m: "(StandardPrime2048 - 3) mod (StandardPrime2048 - 2) + 2 = StandardPrime2048 - 1"
    using StandardPrime2048_gt by simp
  show "\<exists>d. GeneratePrivateKey NewDiffieHellman2048 (Some (StandardPrime2048 - 3)) = Inr d \<and>
        dh_a d = Some (StandardPrime2048 - 1) \<and> StandardPrime2048 - 1 > StandardPrime2048 - 2"
    using StandardPrime2048_gt m
    by (simp add: GeneratePrivateKey_Some[OF p]) (simp add: NewDiffieHellman2048_def)
qed

end
